theory Spec2Isabelle
  imports Main "HOL-Library.Word"
begin

unbundle bit_operations_syntax

section \<open>Data model\<close>

text \<open>
  The program bridges a serial line carrying MIDI bytes and the ALSA sequencer. Bytes
  are \<open>unsigned char\<close>; the fields \<open>param\<close> and \<open>value\<close> of an ALSA controller event
  are 32-bit (\<open>unsigned int\<close> and \<open>signed int\<close>).
\<close>

type_synonym byte = "8 word"

definition BUF_SIZE :: nat where
  "BUF_SIZE = 1024"

definition MAX_MSG_SIZE :: nat where
  "MAX_MSG_SIZE = 1024"

text \<open>The three flags of \<open>arguments_t\<close> that the two directions consult.\<close>

record arguments_t =
  silent :: bool
  verbose :: bool
  printonly :: bool

text \<open>
  An ALSA sequencer event, with the fields the program reads or writes for each event
  type. Note events carry \<open>channel\<close>, \<open>note\<close>, \<open>velocity\<close> (all \<open>unsigned char\<close>);
  controller-shaped events carry \<open>channel\<close>, \<open>param\<close> and \<open>value\<close>; a sysex event
  carries its bytes (\<open>data.ext.ptr\<close>, of length \<open>data.ext.len\<close>). \<open>Other\<close> is an event
  whose type has no case in the program: the cleared event that \<open>parse_midi_command\<close>
  sends for an unknown command, or any other event type arriving from the sequencer.
\<close>

datatype snd_seq_event =
    NoteOff byte byte byte
  | NoteOn byte byte byte
  | KeyPress byte byte byte
  | Controller byte "32 word" "32 word"
  | PgmChange byte "32 word"
  | ChanPress byte "32 word"
  | PitchBend byte "32 word"
  | SysEx "byte list"
  | QFrame "32 word"
  | SongPos "32 word"
  | SongSel "32 word"
  | TuneRequest
  | Clock
  | Start
  | Continue
  | Stop
  | Sensing
  | Other

section \<open>Serial to ALSA: \<open>parse_midi_command\<close>\<close>

text \<open>
  \<open>parse_midi_command buf buflen\<close> is the event handed to
  \<open>snd_seq_event_output_direct\<close>. The call is made on every path, also after the two
  \<open>default\<close> branches, where the event is still the cleared one. The masks
  \<open>& 0xFF\<close> on \<open>unsigned char\<close> values are the identity and are left out. The verbose
  console output is not modelled.
\<close>

definition parse_midi_command :: "byte list \<Rightarrow> nat \<Rightarrow> snd_seq_event" where
  "parse_midi_command buf buflen =
     (let operation = (buf ! 0) AND 0xF0;
          channel = (buf ! 0) AND 0x0F;
          param1 = buf ! 1;
          param2 = buf ! 2;
          int_param1 = (ucast (param1 AND 0x7F) :: 32 word)
                         + push_bit 7 (ucast (param2 AND 0x7F) :: 32 word)
      in if operation = 0x90 then NoteOn channel param1 param2
         else if operation = 0x80 then NoteOff channel param1 param2
         else if operation = 0xA0 then KeyPress channel param1 param2
         else if operation = 0xB0 then Controller channel (ucast param1) (ucast param2)
         else if operation = 0xC0 then PgmChange channel (ucast param1)
         else if operation = 0xD0 then ChanPress channel (ucast param1)
         else if operation = 0xE0 then PitchBend channel (int_param1 - 8192)
         else if operation = 0xF0 then
           (if channel = 0x0 then SysEx (take buflen buf)
            else if channel = 0x1 then QFrame (ucast param1)
            else if channel = 0x2 then SongPos int_param1
            else if channel = 0x3 then SongSel (ucast param1)
            else if channel = 0x6 then TuneRequest
            else if channel = 0x8 then Clock
            else if channel = 0xA then Start
            else if channel = 0xB then Continue
            else if channel = 0xC then Stop
            else if channel = 0xE then Sensing
            else Other)
         else Other)"

section \<open>Serial to ALSA: the framing loop of \<open>read_midi_from_serial_port\<close>\<close>

text \<open>
  The serial line is the list of bytes still to come; \<open>read(serial, p, 1)\<close> takes its
  head. When the list is empty the read blocks, and the run of the model ends there:
  \<open>None\<close> from a loop means that it is waiting for a byte.

  \<open>fast_forward\<close> is the \<open>do ... while (buf[0] >> 7 == 0)\<close> before the main loop.
\<close>

fun fast_forward :: "byte list \<Rightarrow> byte list \<Rightarrow> (byte list \<times> byte list) option" where
  "fast_forward buf [] = None"
| "fast_forward buf (b # rest) =
     (if drop_bit 7 b = 0 then fast_forward (buf[0 := b]) rest
      else Some (buf[0 := b], rest))"

text \<open>
  \<open>framing_loop buf i bytesleft inp\<close> is the inner \<open>while (i < bytesleft)\<close>. It
  returns the buffer, the final \<open>i\<close> and the bytes not yet read. The byte \<open>b\<close> just
  stored is \<open>buf[i]\<close>, and after \<open>buf[0] = buf[i]\<close> it is \<open>buf[0]\<close> too. A store
  happens only while \<open>i < bytesleft\<close>, and \<open>bytesleft\<close> is \<open>BUF_SIZE - 1\<close>, 3, 1
  or 0, so every store is inside the buffer of \<open>BUF_SIZE\<close> bytes.
\<close>

fun framing_loop ::
  "byte list \<Rightarrow> nat \<Rightarrow> nat \<Rightarrow> byte list \<Rightarrow> (byte list \<times> nat \<times> byte list) option" where
  "framing_loop buf i bytesleft [] =
     (if i < bytesleft then None else Some (buf, i, []))"
| "framing_loop buf i bytesleft (b # rest) =
     (if i < bytesleft then
        (if drop_bit 7 b \<noteq> 0 then
           (if b = 0xF7 \<and> buf ! 0 = 0xF0 then Some (buf[i := b], i + 1, rest)
            else framing_loop (buf[i := b, 0 := b]) 1
                   (if b = 0xF1 \<or> b = 0xF3 \<or> b = 0xF5 then 1
                    else if b \<ge> 0xF4 \<or> b \<ge> 0xF6 \<or> (b \<ge> 0xF8 \<and> b \<le> 0xFE) then 0
                    else if b \<noteq> 0xF0 then 3
                    else bytesleft)
                   rest)
         else if buf ! 0 = 0xF0 then framing_loop (buf[i := b]) (i + 1) bytesleft rest
         else if i = 2 then framing_loop (buf[i := b]) 3 bytesleft rest
         else if (buf ! 0) AND 0xF0 = 0xC0 \<or> (buf ! 0) AND 0xF0 = 0xD0
           then framing_loop (buf[i := b]) 3 bytesleft rest
         else framing_loop (buf[i := b]) 2 bytesleft rest)
      else Some (buf, i, b # rest))"

text \<open>
  What one pass of the outer \<open>while (run)\<close> loop does with its frame: a call of
  \<open>parse_midi_command(seq, port_out_id, buf, i)\<close>, a text comment printed on the
  console, or (in print-only mode) one byte printed.
\<close>

datatype framer_out =
    Decode "byte list" nat
  | TextComment nat "byte list"
  | PrintByte byte

lemma framing_loop_consumes:
  "framing_loop buf i bytesleft inp = Some (buf', i', rest) \<Longrightarrow>
     length rest \<le> length inp \<and> (i < bytesleft \<longrightarrow> length rest < length inp)"
proof (induction inp arbitrary: buf i bytesleft)
  case Nil
  then show ?case by (simp split: if_splits)
next
  case (Cons b inp)
  show ?case
  proof (cases "i < bytesleft")
    case False
    with Cons.prems show ?thesis by simp
  next
    case True
    with Cons.prems Cons.IH show ?thesis
      by (fastforce split: if_splits)
  qed
qed

text \<open>
  The outer loop. \<open>run\<close> stays set while bytes arrive. In the text branch
  \<open>read(serial, msg, msglen)\<close> is taken to deliver all \<open>msglen\<close> bytes; the comment is
  printed with \<open>%s\<close>, so it ends at the first zero byte.
\<close>

function serial_loop :: "arguments_t \<Rightarrow> byte list \<Rightarrow> byte list \<Rightarrow> framer_out list" where
  "serial_loop args buf inp =
     (if printonly args then
        (case inp of
           [] \<Rightarrow> []
         | b # rest \<Rightarrow> PrintByte b # serial_loop args (buf[0 := b]) rest)
      else
        (case framing_loop buf 1 (BUF_SIZE - 1) inp of
           None \<Rightarrow> []
         | Some (buf1, i, rest) \<Rightarrow>
             if buf1 ! 0 = 0xFF \<and> buf1 ! 1 = 0x00 \<and> buf1 ! 2 = 0x00 then
               (case rest of
                  [] \<Rightarrow> []
                | l # rest2 \<Rightarrow>
                    let msglen = (if unat l > MAX_MSG_SIZE - 1 then MAX_MSG_SIZE - 1 else unat l)
                    in if length rest2 < msglen then []
                       else (if silent args then []
                             else [TextComment msglen (takeWhile (\<lambda>c. c \<noteq> 0) (take msglen rest2))])
                            @ serial_loop args (buf1[0 := l]) (drop msglen rest2))
             else Decode buf1 i # serial_loop args buf1 rest))"
  by pat_completeness auto
termination
proof (relation "measure (\<lambda>(args, buf, inp). length inp)")
  show "wf (measure (\<lambda>(args, buf, inp). length inp))" by simp
next
  fix args :: arguments_t and buf inp :: "byte list" and b rest
  assume "inp = b # rest"
  then show "((args, buf[0 := b], rest), (args, buf, inp)) \<in> measure (\<lambda>(args, buf, inp). length inp)"
    by simp
next
  fix args :: arguments_t and buf inp :: "byte list" and x2 buf1 y i rest l rest2 msglen
  assume a: "framing_loop buf 1 (BUF_SIZE - 1) inp = Some x2" "(buf1, y) = x2" "(i, rest) = y"
    "rest = l # rest2"
  then have "framing_loop buf 1 (BUF_SIZE - 1) inp = Some (buf1, i, rest)" by auto
  from framing_loop_consumes [OF this] a(4) have "length rest2 < length inp" by simp
  then show "((args, buf1[0 := l], drop msglen rest2), (args, buf, inp))
               \<in> measure (\<lambda>(args, buf, inp). length inp)"
    by simp
next
  fix args :: arguments_t and buf inp :: "byte list" and x2 buf1 y i rest
  assume a: "framing_loop buf 1 (BUF_SIZE - 1) inp = Some x2" "(buf1, y) = x2" "(i, rest) = y"
  then have "framing_loop buf 1 (BUF_SIZE - 1) inp = Some (buf1, i, rest)" by auto
  from framing_loop_consumes [OF this] have "length rest < length inp"
    by (simp add: BUF_SIZE_def)
  then show "((args, buf1, rest), (args, buf, inp)) \<in> measure (\<lambda>(args, buf, inp). length inp)"
    by simp
qed

declare serial_loop.simps [simp del]

definition read_midi_from_serial_port ::
  "arguments_t \<Rightarrow> byte list \<Rightarrow> byte list \<Rightarrow> framer_out list" where
  "read_midi_from_serial_port args buf inp =
     (if \<not> printonly args then
        (case fast_forward buf inp of
           None \<Rightarrow> []
         | Some (buf0, rest) \<Rightarrow> serial_loop args buf0 rest)
      else serial_loop args buf inp)"

text \<open>The events that reach the sequencer: one per call of \<open>parse_midi_command\<close>.\<close>

fun sink_events :: "framer_out list \<Rightarrow> snd_seq_event list" where
  "sink_events [] = []"
| "sink_events (Decode buf n # outs) = parse_midi_command buf n # sink_events outs"
| "sink_events (_ # outs) = sink_events outs"

section \<open>ALSA to serial: \<open>write_midi_action_to_serial_port\<close>\<close>

text \<open>
  The locals of \<open>write_midi_action_to_serial_port\<close>. They are declared before the
  \<open>do ... while\<close> loop, so they keep their contents from one event of a call to the
  next: \<open>bytes\<close> (3 bytes, initially \<open>{0x00, 0x00, 0xFF}\<close>), \<open>sysex_data\<close> (256
  bytes, not initialised) and \<open>sysex_len\<close> (initially 0).
\<close>

record enc_state =
  bytes :: "byte list"
  sysex_data :: "byte list"
  sysex_len :: int

text \<open>The sysex copy loop writes \<open>sysex_data[i]\<close> with no check of \<open>i\<close> against 256.\<close>

datatype enc_error = SysexBufferOverrun

definition SYSEX_DATA_SIZE :: nat where
  "SYSEX_DATA_SIZE = 256"

text \<open>
  \<open>switch_event\<close> is the \<open>switch (ev->type)\<close>. Sums such as \<open>0x80 + channel\<close> are
  stored into an \<open>unsigned char\<close> and wrap at 256; \<open>param\<close> and \<open>value\<close> are cut to
  their low byte by the same store. \<open>data.ext.len\<close> is an \<open>unsigned int\<close> stored into
  the \<open>int\<close> \<open>sysex_len\<close>; the copy loop runs for \<open>i < sysex_len\<close> and leaves the
  256-byte array as soon as \<open>sysex_len\<close> exceeds 256.
\<close>

fun switch_event :: "enc_state \<Rightarrow> snd_seq_event \<Rightarrow> enc_error + enc_state" where
  "switch_event s (NoteOff ch n v) = Inr (s\<lparr>bytes := (bytes s)[0 := 0x80 + ch, 1 := n, 2 := v]\<rparr>)"
| "switch_event s (NoteOn ch n v) = Inr (s\<lparr>bytes := (bytes s)[0 := 0x90 + ch, 1 := n, 2 := v]\<rparr>)"
| "switch_event s (KeyPress ch n v) = Inr (s\<lparr>bytes := (bytes s)[0 := 0xA0 + ch, 1 := n, 2 := v]\<rparr>)"
| "switch_event s (Controller ch p v) =
     Inr (s\<lparr>bytes := (bytes s)[0 := 0xB0 + ch, 1 := ucast p, 2 := ucast v]\<rparr>)"
| "switch_event s (PgmChange ch v) = Inr (s\<lparr>bytes := (bytes s)[0 := 0xC0 + ch, 1 := ucast v]\<rparr>)"
| "switch_event s (ChanPress ch v) = Inr (s\<lparr>bytes := (bytes s)[0 := 0xD0 + ch, 1 := ucast v]\<rparr>)"
| "switch_event s (PitchBend ch v) =
     Inr (s\<lparr>bytes := (bytes s)[0 := 0xE0 + ch,
                               1 := ucast ((v + 8192) AND 0x7F),
                               2 := ucast (signed_drop_bit 7 (v + 8192))]\<rparr>)"
| "switch_event s (SysEx d) =
     (let len = sint (word_of_nat (length d) :: 32 word)
      in if int SYSEX_DATA_SIZE < len then Inl SysexBufferOverrun
         else Inr (s\<lparr>sysex_len := len,
                     sysex_data := take (nat len) d @ drop (nat len) (sysex_data s)\<rparr>))"
| "switch_event s (QFrame v) = Inr (s\<lparr>bytes := (bytes s)[0 := 0xF1, 1 := ucast v]\<rparr>)"
| "switch_event s (SongPos v) =
     Inr (s\<lparr>bytes := (bytes s)[0 := 0xF2,
                               1 := ucast ((v + 8192) AND 0x7F),
                               2 := ucast (signed_drop_bit 7 (v + 8192))]\<rparr>)"
| "switch_event s (SongSel v) = Inr (s\<lparr>bytes := (bytes s)[0 := 0xF3, 1 := ucast v]\<rparr>)"
| "switch_event s TuneRequest = Inr (s\<lparr>bytes := (bytes s)[0 := 0xF6]\<rparr>)"
| "switch_event s Clock = Inr (s\<lparr>bytes := (bytes s)[0 := 0xF8]\<rparr>)"
| "switch_event s Start = Inr (s\<lparr>bytes := (bytes s)[0 := 0xFA]\<rparr>)"
| "switch_event s Continue = Inr (s\<lparr>bytes := (bytes s)[0 := 0xFB]\<rparr>)"
| "switch_event s Stop = Inr (s\<lparr>bytes := (bytes s)[0 := 0xFC]\<rparr>)"
| "switch_event s Sensing = Inr (s\<lparr>bytes := (bytes s)[0 := 0xFE]\<rparr>)"
| "switch_event s Other = Inr s"

text \<open>
  \<open>serial_write\<close> is the code after the switch: the new state and the bytes given to
  \<open>write(serial, ...)\<close> (the empty list when nothing is written).
\<close>

definition serial_write :: "enc_state \<Rightarrow> enc_state \<times> byte list" where
  "serial_write s =
     (if sysex_len s > 0 then (s, take (nat (sysex_len s)) (sysex_data s))
      else if bytes s ! 0 \<noteq> 0x00 then
        (let bs = (bytes s)[1 := (bytes s ! 1) AND 0x7F]
         in if bs ! 2 = 0xFF \<or> bs ! 0 = 0xF1 \<or> bs ! 0 = 0xF3 \<or> bs ! 0 = 0xF5
              then (s\<lparr>bytes := bs\<rparr>, take 2 bs)
            else if bs ! 0 = 0xF4 \<or> bs ! 0 = 0xF6 \<or> bs ! 0 \<ge> 0xF8
              then (s\<lparr>bytes := bs\<rparr>, take 1 bs)
            else (s\<lparr>bytes := bs[2 := (bs ! 2) AND 0x7F]\<rparr>, take 3 (bs[2 := (bs ! 2) AND 0x7F])))
      else (s, []))"

text \<open>One pass of the \<open>do ... while\<close> body: the switch, then the write.\<close>

definition encode_event :: "enc_state \<Rightarrow> snd_seq_event \<Rightarrow> enc_error + enc_state \<times> byte list" where
  "encode_event s ev =
     (case switch_event s ev of
        Inl e \<Rightarrow> Inl e
      | Inr s1 \<Rightarrow> Inr (serial_write s1))"

text \<open>The loop over the events that are pending during one call, in arrival order.\<close>

fun drain_events :: "enc_state \<Rightarrow> snd_seq_event list \<Rightarrow> enc_error + byte list list" where
  "drain_events s [] = Inr []"
| "drain_events s (ev # evs) =
     (case encode_event s ev of
        Inl e \<Rightarrow> Inl e
      | Inr (s1, w) \<Rightarrow>
          (case drain_events s1 evs of
             Inl e \<Rightarrow> Inl e
           | Inr ws \<Rightarrow> Inr (w # ws)))"

definition init_enc_state :: "byte list \<Rightarrow> enc_state" where
  "init_enc_state sd = \<lparr>bytes = [0x00, 0x00, 0xFF], sysex_data = sd, sysex_len = 0\<rparr>"

text \<open>
  A call of the function: \<open>sd\<close> is the content that the uninitialised \<open>sysex_data\<close>
  happens to have, \<open>evs\<close> the events the call reads. The result lists what each event
  made the function write.
\<close>

definition write_midi_action_to_serial_port ::
  "byte list \<Rightarrow> snd_seq_event list \<Rightarrow> enc_error + byte list list" where
  "write_midi_action_to_serial_port sd evs = drain_events (init_enc_state sd) evs"

text \<open>
  The two directions composed, for stating round trips: the first event of a call is
  encoded, and the bytes written are decoded from the start of a buffer of \<open>BUF_SIZE\<close>
  bytes.
\<close>

definition decode_encoded :: "byte list \<Rightarrow> snd_seq_event \<Rightarrow> enc_error + snd_seq_event" where
  "decode_encoded sd ev =
     (case encode_event (init_enc_state sd) ev of
        Inl e \<Rightarrow> Inl e
      | Inr (s, w) \<Rightarrow> Inr (parse_midi_command (w @ replicate (BUF_SIZE - length w) 0) (length w)))"


section \<open>Auxiliary facts about bytes\<close>

lemma status_test_bit7: "(drop_bit 7 (b::byte) \<noteq> 0) = bit b 7"
proof -
  have "(drop_bit 7 b = 0) = (\<not> bit b 7)"
  proof
    assume "drop_bit 7 b = 0"
    then have "\<not> bit (drop_bit 7 b) 0" by simp
    then show "\<not> bit b 7" by (simp add: bit_drop_bit_eq)
  next
    assume a: "\<not> bit b 7"
    show "drop_bit 7 b = 0"
    proof (rule bit_word_eqI)
      fix n :: nat
      have "\<not> bit b (7 + n)"
      proof
        assume h: "bit b (7 + n)"
        then have "7 + n < 8" by (auto dest: bit_imp_le_length)
        then have "n = 0" by simp
        with h a show False by simp
      qed
      then show "bit (drop_bit 7 b) n = bit (0::byte) n"
        by (simp add: bit_drop_bit_eq)
    qed
  qed
  then show ?thesis by simp
qed

lemma nat_le_15: "(n::nat) \<le> 15 \<Longrightarrow> n \<in> {0,1,2,3,4,5,6,7,8,9,10,11,12,13,14,15}"
  by simp arith

lemma channel_cases: "(ch::byte) \<le> 15 \<Longrightarrow> ch \<in> {0,1,2,3,4,5,6,7,8,9,10,11,12,13,14,15}"
proof -
  assume "ch \<le> 15"
  then have "unat ch \<le> 15" by (simp add: word_le_nat_alt)
  then have "unat ch \<in> {0,1,2,3,4,5,6,7,8,9,10,11,12,13,14,15}" by (rule nat_le_15)
  then have "(word_of_nat (unat ch) :: byte) \<in> word_of_nat ` {0,1,2,3,4,5,6,7,8,9,10,11,12,13,14,15}"
    by (rule imageI)
  then show ?thesis by simp
qed

lemma status_plus_channel_nonzero:
  "(ch::byte) \<le> 15 \<Longrightarrow>
     0x80 + ch \<noteq> 0 \<and> 0x90 + ch \<noteq> 0 \<and> 0xA0 + ch \<noteq> 0 \<and> 0xB0 + ch \<noteq> 0 \<and> 0xE0 + ch \<noteq> 0"
  using channel_cases [of ch] by auto

lemma sint_length: "n < 2 ^ 31 \<Longrightarrow> sint (word_of_nat n :: 32 word) = int n"
  by (simp add: signed_of_nat signed_take_bit_int_eq_self)

lemma mask7_byte: "(0x7F::byte) = mask 7"
  by (simp add: mask_eq_exp_minus_1)

lemma mask7_w32: "(0x7F::32 word) = mask 7"
  by (simp add: mask_eq_exp_minus_1)

lemma data_byte_mask: "(d::byte) \<le> 0x7F \<Longrightarrow> d AND 0x7F = d"
proof -
  assume "d \<le> 0x7F"
  then have "d < 2 ^ 7" by (simp add: word_le_nat_alt word_less_nat_alt)
  then show ?thesis unfolding mask7_byte by (rule less_mask_eq)
qed

lemma data_value_ucast: "(p::32 word) \<le> 0x7F \<Longrightarrow> (ucast ((ucast p :: byte) AND 0x7F) :: 32 word) = p"
proof -
  assume "p \<le> 0x7F"
  then have lt: "p < 2 ^ 7" by (simp add: word_le_nat_alt word_less_nat_alt)
  have "(ucast ((ucast p :: byte) AND mask 7) :: 32 word) = p AND mask 7"
    by (rule bit_word_eqI) (auto simp: bit_simps)
  also have "\<dots> = p" using lt by (rule less_mask_eq)
  finally show ?thesis by (simp add: mask7_byte)
qed

lemma split14:
  fixes w :: "32 word"
  assumes "w < 2 ^ 14"
  shows "(ucast ((ucast (w AND 0x7F) :: byte) AND 0x7F) :: 32 word)
      + push_bit 7 (ucast (((ucast (signed_drop_bit 7 w) :: byte) AND 0x7F) AND 0x7F)) = w"
proof -
  have hi: "\<not> bit w n" if "14 \<le> n" for n
  proof
    assume b: "bit w n"
    have "w AND mask 14 = w" using assms by (rule less_mask_eq)
    then have "bit (w AND mask 14) n" using b by simp
    then show False using that by (simp add: bit_simps)
  qed
  have lt14: "n < 14" if "bit w n" for n
    using hi [of n] that by (cases "14 \<le> n") auto
  let ?lo = "(ucast ((ucast (w AND mask 7) :: byte) AND mask 7) :: 32 word)"
  let ?hi = "push_bit 7 (ucast (((ucast (signed_drop_bit 7 w) :: byte) AND mask 7) AND mask 7)) :: 32 word"
  have lo: "?lo = take_bit 7 w"
    by (rule bit_word_eqI) (auto simp: bit_simps)
  have hi': "?hi = push_bit 7 (drop_bit 7 w)"
    by (rule bit_word_eqI) (auto simp: bit_simps dest: lt14)
  have "?lo + ?hi = w"
    unfolding lo hi' by (subst add.commute) (rule bits_ident)
  then show ?thesis by (simp add: mask7_byte mask7_w32)
qed


lemma and7_not_ff: "(x::byte) AND 0x7F \<noteq> 0xFF"
proof
  assume "x AND 0x7F = 0xFF"
  then have "bit (x AND mask 7) 7 = bit (0xFF::byte) 7" by (simp add: mask7_byte)
  then show False by (simp add: bit_simps)
qed

lemma data_byte_not_ff: "(d::byte) \<le> 0x7F \<Longrightarrow> d \<noteq> 0xFF"
  by auto

lemma high7_is_data:
  fixes w :: "32 word"
  assumes "w < 2 ^ 14"
  shows "(ucast (signed_drop_bit 7 w) :: byte) AND 0x7F = ucast (signed_drop_bit 7 w)"
proof -
  have m: "w AND mask 14 = w" using assms by (rule less_mask_eq)
  have lt14: "n < 14" if "bit w n" for n
  proof (rule ccontr)
    assume "\<not> n < 14"
    moreover from that m have "bit (w AND mask 14) n" by simp
    ultimately show False by (simp add: bit_simps)
  qed
  have "(ucast (signed_drop_bit 7 w) :: byte) AND mask 7 = ucast (signed_drop_bit 7 w)"
    by (rule bit_word_eqI) (auto simp: bit_simps dest: lt14)
  then show ?thesis by (simp add: mask7_byte)
qed

lemma pitch_in_range:
  fixes pb :: "32 word"
  assumes "- 8192 \<le> sint pb" and "sint pb < 8192"
  shows "pb + 8192 < 2 ^ 14"
proof -
  have "sint (pb + 8192) = signed_take_bit 31 (sint pb + 8192)"
    by (simp add: sint_word_ariths)
  also have "\<dots> = sint pb + 8192"
    using assms by (intro signed_take_bit_int_eq_self) simp_all
  finally have s: "sint (pb + 8192) = sint pb + 8192" .
  have "uint (pb + 8192) = take_bit 32 (sint (pb + 8192))"
    using uint_sint [of "pb + 8192"] by simp
  also have "\<dots> = sint (pb + 8192)"
    using s assms by (intro take_bit_int_eq_self) simp_all
  finally have "uint (pb + 8192) = sint (pb + 8192)" .
  with s assms have "uint (pb + 8192) < 2 ^ 14" by simp
  then show ?thesis by (simp add: word_less_alt)
qed


lemma channel_status_facts:
  assumes "(ch::byte) \<le> 15" and "s \<in> {0x80, 0x90, 0xA0, 0xB0, 0xC0, 0xD0, 0xE0}"
  shows "(s + ch) AND 0xF0 = s \<and> (s + ch) AND 0x0F = ch \<and> s + ch \<noteq> 0
       \<and> s + ch \<noteq> 0xF1 \<and> s + ch \<noteq> 0xF3 \<and> s + ch \<noteq> 0xF5
       \<and> s + ch \<noteq> 0xF4 \<and> s + ch \<noteq> 0xF6 \<and> \<not> 0xF8 \<le> s + ch"
  using channel_cases [OF assms(1)] assms(2) by (elim insertE emptyE; simp)


lemma data_value_byte:
  fixes x :: "32 word"
  assumes "x \<le> 0x7F"
  shows "(ucast x :: byte) AND 0x7F = ucast x \<and> (ucast (ucast x :: byte) :: 32 word) = x"
proof -
  from assms have lt: "x < 2 ^ 7" by (simp add: word_le_nat_alt word_less_nat_alt)
  then have m: "x AND mask 7 = x" by (rule less_mask_eq)
  have lt7: "n < 7" if "bit x n" for n
  proof (rule ccontr)
    assume "\<not> n < 7"
    moreover from that m have "bit (x AND mask 7) n" by simp
    ultimately show False by (simp add: bit_simps)
  qed
  have "(ucast x :: byte) AND mask 7 = ucast x"
    by (rule bit_word_eqI) (auto simp: bit_simps dest: lt7)
  moreover have "(ucast (ucast x :: byte) :: 32 word) = x"
    by (rule bit_word_eqI) (auto simp: bit_simps dest: lt7)
  ultimately show ?thesis by (simp add: mask7_byte)
qed



lemmas enc_defs = encode_event_def serial_write_def Let_def

lemmas call_defs = write_midi_action_to_serial_port_def init_enc_state_def enc_defs

lemmas framer_defs = read_midi_from_serial_port_def serial_loop.simps BUF_SIZE_def
  MAX_MSG_SIZE_def Let_def

section \<open>Auxiliary facts about the framing loop\<close>

text \<open>The loop keeps the length of the buffer.\<close>

lemma framing_loop_length:
  "framing_loop buf i bytesleft inp = Some (buf', i', rest) \<Longrightarrow> length buf' = length buf"
proof (induction inp arbitrary: buf i bytesleft)
  case Nil
  then show ?case by (simp split: if_splits)
next
  case (Cons b inp)
  show ?case
  proof (cases "i < bytesleft")
    case False
    with Cons.prems show ?thesis by simp
  next
    case True
    with Cons.prems Cons.IH show ?thesis
      by (fastforce split: if_splits)
  qed
qed

lemma framing_loop_status:
  "framing_loop buf i bytesleft inp = Some (buf', i', rest) \<Longrightarrow> 1 \<le> i \<Longrightarrow> 0 < length buf \<Longrightarrow>
     drop_bit 7 (buf ! 0) \<noteq> 0 \<or> (i \<le> 3 \<and> 3 < bytesleft) \<Longrightarrow>
     drop_bit 7 (buf' ! 0) \<noteq> 0"
proof (induction inp arbitrary: buf i bytesleft)
  case Nil
  then show ?case by (auto split: if_splits)
next
  case (Cons b inp)
  show ?case
  proof (cases "i < bytesleft")
    case False
    with Cons.prems show ?thesis by auto
  next
    case lt: True
    show ?thesis
    proof (cases "drop_bit 7 b \<noteq> 0")
      case st: True
      show ?thesis
      proof (cases "b = 0xF7 \<and> buf ! 0 = 0xF0")
        case True
        with lt st Cons.prems show ?thesis by auto
      next
        case False
        with lt st Cons.prems(1)
        obtain bl where "framing_loop (buf[i := b, 0 := b]) 1 bl inp = Some (buf', i', rest)"
          by (auto split: if_splits)
        moreover have "drop_bit 7 ((buf[i := b, 0 := b]) ! 0) \<noteq> 0"
          using st Cons.prems(3) by simp
        ultimately show ?thesis
          using Cons.IH [of "buf[i := b, 0 := b]" 1 bl] Cons.prems(3) by simp
      qed
    next
      case da: False
      show ?thesis
      proof (cases "buf ! 0 = 0xF0")
        case True
        with lt da Cons.prems(1)
        have "framing_loop (buf[i := b]) (i + 1) bytesleft inp = Some (buf', i', rest)" by simp
        moreover have "drop_bit 7 ((buf[i := b]) ! 0) \<noteq> 0"
          using True Cons.prems(2) by simp
        ultimately show ?thesis
          using Cons.IH [of "buf[i := b]" "i + 1" bytesleft] Cons.prems(3) by simp
      next
        case False
        with lt da Cons.prems(1)
        obtain j where j: "framing_loop (buf[i := b]) j bytesleft inp = Some (buf', i', rest)"
          "j = 2 \<or> j = 3"
          by (auto split: if_splits)
        have "(buf[i := b]) ! 0 = buf ! 0" using Cons.prems(2) by simp
        moreover have "drop_bit 7 (buf ! 0) \<noteq> 0 \<or> (j \<le> 3 \<and> 3 < bytesleft)"
          using Cons.prems(4) j(2) by auto
        ultimately show ?thesis
          using Cons.IH [of "buf[i := b]" j bytesleft] j Cons.prems(3) by auto
      qed
    qed
  qed
qed

lemma serial_loop_decode_status:
  "0 < length buf \<Longrightarrow> Decode b n \<in> set (serial_loop args buf inp) \<Longrightarrow> drop_bit 7 (b ! 0) \<noteq> 0"
proof (induction args buf inp rule: serial_loop.induct)
  case (1 args buf inp)
  show ?case
  proof (cases "printonly args")
    case True
    with "1.prems" "1.IH"(1) show ?thesis
      by (subst (asm) serial_loop.simps) (auto split: list.splits)
  next
    case po: False
    show ?thesis
    proof (cases "framing_loop buf 1 (BUF_SIZE - 1) inp")
      case None
      with po "1.prems" show ?thesis
        by (subst (asm) serial_loop.simps) simp
    next
      case (Some r)
      then obtain buf1 i rest where r: "framing_loop buf 1 (BUF_SIZE - 1) inp = Some (buf1, i, rest)"
        by (cases r) auto
      have len: "0 < length buf1" using framing_loop_length [OF r] "1.prems"(1) by simp
      have st: "drop_bit 7 (buf1 ! 0) \<noteq> 0"
        using framing_loop_status [OF r] "1.prems"(1) by (simp add: BUF_SIZE_def)
      show ?thesis
      proof (cases "buf1 ! 0 = 0xFF \<and> buf1 ! 1 = 0x00 \<and> buf1 ! 2 = 0x00")
        case tm: True
        show ?thesis
        proof (cases rest)
          case Nil
          with po r tm "1.prems"(2) show ?thesis
            by (subst (asm) serial_loop.simps) simp
        next
          case (Cons l rest2)
          define msglen where
            "msglen = (if MAX_MSG_SIZE - 1 < unat l then MAX_MSG_SIZE - 1 else unat l)"
          show ?thesis
          proof (cases "length rest2 < msglen")
            case True
            with po r tm Cons "1.prems"(2) show ?thesis
              by (subst (asm) serial_loop.simps) (simp add: msglen_def Let_def)
          next
            case False
            with po r tm Cons "1.prems"(2)
            have "Decode b n \<in> set (serial_loop args (buf1[0 := l]) (drop msglen rest2))"
              by (subst (asm) serial_loop.simps) (simp add: msglen_def Let_def split: if_splits)
            moreover have "0 < length (buf1[0 := l])" using len by simp
            ultimately show ?thesis
              using "1.IH"(2) [OF po r refl refl tm Cons msglen_def False] by simp
          qed
        qed
      next
        case False
        with po r "1.prems"(2) "1.IH"(3) [OF po r refl refl False] len st show ?thesis
          by (subst (asm) serial_loop.simps) auto
      qed
    qed
  qed
qed















section \<open>The ALSA-to-serial direction\<close>

subsection \<open>The first event of a call\<close>

text \<open>
  For the first event of a call \<open>bytes[2]\<close> still holds the \<open>0xFF\<close> it was
  initialised with and \<open>sysex_len\<close> is 0. Then a channel-voice event with channel
  0..15 and data values 0..127 is written in its MIDI form, and every event within range
  other than a song position is decoded to itself.
\<close>

lemmas rt_defs = decode_encoded_def init_enc_state_def encode_event_def serial_write_def
  parse_midi_command_def Let_def

lemma round_trip_note:
  assumes "ch \<le> 15" and "n \<le> 0x7F" and "v \<le> 0x7F"
  shows "decode_encoded sd (NoteOff ch n v) = Inr (NoteOff ch n v)
       \<and> decode_encoded sd (NoteOn ch n v) = Inr (NoteOn ch n v)
       \<and> decode_encoded sd (KeyPress ch n v) = Inr (KeyPress ch n v)"
  using channel_status_facts [OF assms(1), of "0x80"] channel_status_facts [OF assms(1), of "0x90"]
    channel_status_facts [OF assms(1), of "0xA0"]
    data_byte_mask [OF assms(2)] data_byte_mask [OF assms(3)] data_byte_not_ff [OF assms(3)]
  by (simp add: rt_defs)

lemma round_trip_control:
  assumes "ch \<le> 15" and "p \<le> 0x7F" and "x \<le> 0x7F"
  shows "decode_encoded sd (Controller ch p x) = Inr (Controller ch p x)
       \<and> decode_encoded sd (PgmChange ch x) = Inr (PgmChange ch x)
       \<and> decode_encoded sd (ChanPress ch x) = Inr (ChanPress ch x)"
proof -
  have "(ucast x :: byte) \<noteq> 0xFF"
    using data_value_byte [OF assms(3)] and7_not_ff [of "ucast x"] by simp
  then show ?thesis
    using channel_status_facts [OF assms(1), of "0xB0"] channel_status_facts [OF assms(1), of "0xC0"]
      channel_status_facts [OF assms(1), of "0xD0"]
      data_value_byte [OF assms(2)] data_value_byte [OF assms(3)]
    by (simp add: rt_defs)
qed

lemma round_trip_system:
  assumes "x \<le> 0x7F"
  shows "decode_encoded sd (QFrame x) = Inr (QFrame x)
       \<and> decode_encoded sd (SongSel x) = Inr (SongSel x)
       \<and> decode_encoded sd TuneRequest = Inr TuneRequest
       \<and> decode_encoded sd Clock = Inr Clock
       \<and> decode_encoded sd Start = Inr Start
       \<and> decode_encoded sd Continue = Inr Continue
       \<and> decode_encoded sd Stop = Inr Stop
       \<and> decode_encoded sd Sensing = Inr Sensing"
  using data_value_byte [OF assms] by (simp add: rt_defs)

lemma round_trip_sysex:
  assumes "length d + 2 \<le> SYSEX_DATA_SIZE"
  shows "decode_encoded sd (SysEx (0xF0 # d @ [0xF7])) = Inr (SysEx (0xF0 # d @ [0xF7]))"
proof -
  define D where "D = 0xF0 # d @ [0xF7]"
  have len: "0 < length D" "length D \<le> SYSEX_DATA_SIZE" "length D < 2 ^ 31"
    using assms by (simp_all add: D_def SYSEX_DATA_SIZE_def)
  have hd: "(D @ zs) ! 0 = 0xF0" for zs by (simp add: D_def)
  have "map_sum id snd (encode_event (init_enc_state sd) (SysEx D)) = Inr D"
    using len by (simp add: enc_defs sint_length)
  then obtain s where "encode_event (init_enc_state sd) (SysEx D) = Inr (s, D)"
    by (cases "encode_event (init_enc_state sd) (SysEx D)") auto
  moreover have "parse_midi_command (D @ replicate (BUF_SIZE - length D) 0) (length D) = SysEx D"
    by (simp add: parse_midi_command_def hd)
  ultimately show ?thesis by (simp add: decode_encoded_def D_def)
qed

lemma round_trip_pitch_bend:
  assumes "ch \<le> 15" and "- 8192 \<le> sint pb" and "sint pb < 8192"
  shows "decode_encoded sd (PitchBend ch pb) = Inr (PitchBend ch pb)"
proof -
  note w = pitch_in_range [OF assms(2,3)]
  show ?thesis
    using channel_status_facts [OF assms(1), of "0xE0"] split14 [OF w] high7_is_data [OF w]
    and7_not_ff [of "ucast (signed_drop_bit 7 (pb + 8192))"]
    by (simp add: rt_defs)
qed


lemma first_event_written:
  assumes "ch \<le> 15" and "n \<le> 0x7F" and "v \<le> 0x7F" and "p \<le> 0x7F" and "x \<le> 0x7F"
  shows "map_sum id snd (encode_event (init_enc_state sd) (NoteOff ch n v)) = Inr [0x80 + ch, n, v]
       \<and> map_sum id snd (encode_event (init_enc_state sd) (NoteOn ch n v)) = Inr [0x90 + ch, n, v]
       \<and> map_sum id snd (encode_event (init_enc_state sd) (KeyPress ch n v)) = Inr [0xA0 + ch, n, v]
       \<and> map_sum id snd (encode_event (init_enc_state sd) (Controller ch p x))
           = Inr [0xB0 + ch, ucast p, ucast x]
       \<and> map_sum id snd (encode_event (init_enc_state sd) (PgmChange ch x)) = Inr [0xC0 + ch, ucast x]
       \<and> map_sum id snd (encode_event (init_enc_state sd) (ChanPress ch x)) = Inr [0xD0 + ch, ucast x]"
proof -
  have "(ucast x :: byte) \<noteq> 0xFF"
    using data_value_byte [OF assms(5)] and7_not_ff [of "ucast x"] by simp
  then show ?thesis
    using channel_status_facts [OF assms(1), of "0x80"] channel_status_facts [OF assms(1), of "0x90"]
      channel_status_facts [OF assms(1), of "0xA0"] channel_status_facts [OF assms(1), of "0xB0"]
      channel_status_facts [OF assms(1), of "0xC0"] channel_status_facts [OF assms(1), of "0xD0"]
      data_byte_mask [OF assms(2)] data_byte_mask [OF assms(3)] data_byte_not_ff [OF assms(3)]
      data_value_byte [OF assms(4)] data_value_byte [OF assms(5)]
    by (simp add: init_enc_state_def enc_defs)
qed

subsection \<open>Events after the first\<close>

text \<open>
  As long as no sysex event has come in a call, \<open>sysex_len\<close> stays 0 and every event
  reaches the byte branch of the write.
\<close>

lemma sentinel_collision_step:
  assumes "length (bytes s) = 3" and "sysex_len s \<le> 0" and "ch \<le> 15"
  shows "map_sum id snd (encode_event s (NoteOff ch n 0xFF)) = Inr [0x80 + ch, n AND 0x7F]
       \<and> map_sum id snd (encode_event s (NoteOn ch n 0xFF)) = Inr [0x90 + ch, n AND 0x7F]
       \<and> map_sum id snd (encode_event s (KeyPress ch n 0xFF)) = Inr [0xA0 + ch, n AND 0x7F]
       \<and> (ucast v = (0xFF::byte) \<longrightarrow>
            map_sum id snd (encode_event s (Controller ch p v)) = Inr [0xB0 + ch, ucast p AND 0x7F])
       \<and> (ucast (signed_drop_bit 7 (w + 8192)) = (0xFF::byte) \<longrightarrow>
            map_sum id snd (encode_event s (PitchBend ch w))
              = Inr [0xE0 + ch, ucast ((w + 8192) AND 0x7F) AND 0x7F])"
proof -
  from assms(1) obtain b0 b1 b2 where bs: "bytes s = [b0, b1, b2]"
    by (auto simp: length_Suc_conv numeral_3_eq_3)
  note nz = status_plus_channel_nonzero [OF assms(3)]
  from bs assms(2) nz show ?thesis
    by (simp add: enc_defs)
qed

lemma encode_event_no_sysex:
  assumes "\<forall>d. ev \<noteq> SysEx d" and "sysex_len s \<le> 0" and "length (bytes s) = 3"
  shows "\<exists>s1 w. encode_event s ev = Inr (s1, w) \<and> sysex_len s1 \<le> 0 \<and> length (bytes s1) = 3"
  using assms by (cases ev) (simp_all add: enc_defs)

lemma drain_events_no_sysex:
  assumes "\<forall>d. SysEx d \<notin> set pre" and "sysex_len s \<le> 0" and "length (bytes s) = 3"
  shows "\<exists>s1 ws. length ws = length pre \<and> sysex_len s1 \<le> 0 \<and> length (bytes s1) = 3
           \<and> (\<forall>ev. drain_events s (pre @ [ev])
                 = (case encode_event s1 ev of Inl e \<Rightarrow> Inl e | Inr (s2, w) \<Rightarrow> Inr (ws @ [w])))"
  using assms
proof (induction pre arbitrary: s)
  case Nil
  show ?case
    by (rule exI [of _ s], rule exI [of _ "[]"]) (use Nil in \<open>auto split: sum.splits\<close>)
next
  case (Cons e pre)
  from Cons.prems(1) have ne: "\<forall>d. e \<noteq> SysEx d" by auto
  from encode_event_no_sysex [OF ne Cons.prems(2,3)]
  obtain s1 w where e: "encode_event s e = Inr (s1, w)" "sysex_len s1 \<le> 0" "length (bytes s1) = 3"
    by blast
  from Cons.prems(1) have "\<forall>d. SysEx d \<notin> set pre" by auto
  from Cons.IH [OF this e(2,3)]
  obtain s2 ws where r: "length ws = length pre" "sysex_len s2 \<le> 0" "length (bytes s2) = 3"
    "\<forall>ev. drain_events s1 (pre @ [ev])
        = (case encode_event s2 ev of Inl e \<Rightarrow> Inl e | Inr (s3, w') \<Rightarrow> Inr (ws @ [w']))"
    by blast
  show ?case
    by (rule exI [of _ s2], rule exI [of _ "w # ws"]) (use e r in \<open>auto split: sum.splits\<close>)
qed

lemma last_write_of_call:
  assumes "\<forall>d. SysEx d \<notin> set pre"
    and "\<And>s. length (bytes s) = 3 \<Longrightarrow> sysex_len s \<le> 0 \<Longrightarrow> map_sum id snd (encode_event s ev) = Inr w"
  shows "map_sum id (\<lambda>ws. (length ws, last ws)) (write_midi_action_to_serial_port sd (pre @ [ev]))
           = Inr (Suc (length pre), w)"
proof -
  have i: "sysex_len (init_enc_state sd) \<le> 0" "length (bytes (init_enc_state sd)) = 3"
    by (simp_all add: init_enc_state_def)
  from drain_events_no_sysex [OF assms(1) i]
  obtain s1 ws where r: "length ws = length pre" "sysex_len s1 \<le> 0" "length (bytes s1) = 3"
    "drain_events (init_enc_state sd) (pre @ [ev])
        = (case encode_event s1 ev of Inl e \<Rightarrow> Inl e | Inr (s2, w) \<Rightarrow> Inr (ws @ [w]))"
    by blast
  from assms(2) [OF r(3,2)] obtain s2 where "encode_event s1 ev = Inr (s2, w)"
    by (cases "encode_event s1 ev") auto
  with r show ?thesis
    by (simp add: write_midi_action_to_serial_port_def)
qed

subsection \<open>The claims\<close>

text \<open>
  Claim C1 (round trip). Decoding what the encoder wrote should give the event back.
  It does not for a song position: the encoder adds 8192 to the value before splitting
  it (as it does for a pitch bend), and the decoder, which subtracts 8192 for a pitch
  bend, does not for a song position. Song position 0 is written as \<open>F2 00 40\<close>, which
  \<open>parse_midi_command\<close> decodes as song position 8192, also when the bytes come
  through the framing loop.
\<close>

theorem song_position_round_trip_fails:
  "write_midi_action_to_serial_port (replicate 256 0) [SongPos 0] = Inr [[0xF2, 0x00, 0x40]]
     \<and> parse_midi_command ([0xF2, 0x00, 0x40] @ replicate 1021 0) 3 = SongPos 8192
     \<and> decode_encoded (replicate 256 0) (SongPos 0) = Inr (SongPos 8192)
     \<and> sink_events (read_midi_from_serial_port \<lparr>silent = False, verbose = False, printonly = False\<rparr>
          (replicate 1024 0) [0xF8, 0xF2, 0x00, 0x40]) = [SongPos 8192]"
  by (simp add: call_defs framer_defs decode_encoded_def parse_midi_command_def)

text \<open>
  Claim C7 (shape of an encoded channel-voice message). A program change should be
  written as a status byte and one data byte. \<open>bytes[2]\<close> is set to \<open>0xFF\<close> once per
  call and not per event, so only the first event of a call has the shape the claim
  gives (\<open>first_event_written\<close>): a program change that follows a note-on in the
  same call finds the note's velocity in \<open>bytes[2]\<close> and is written with three bytes.
\<close>

theorem program_change_after_note_on_three_bytes:
  "write_midi_action_to_serial_port (replicate 256 0) [NoteOn 0 0x40 0x7F, PgmChange 0 5]
     = Inr [[0x90, 0x40, 0x7F], [0xC0, 0x05, 0x7F]]"
  by (simp add: call_defs)

text \<open>
  Claim C9 (sentinel collision), as the code has it. In a call in which no sysex event
  came before it, a two-data-byte channel-voice event on a channel 0..15 whose second
  data byte is \<open>0xFF\<close> is written with two bytes only: the status byte and the first
  data byte masked to 7 bits. For a controller the second data byte is the low byte of
  \<open>value\<close>; for a pitch bend it is the low byte of \<open>(value + 8192) >> 7\<close>. The
  statement gives the number of writes of the call and the last of them.
\<close>

theorem sentinel_collision_two_bytes:
  assumes "\<forall>d. SysEx d \<notin> set pre" and "ch \<le> 15"
  shows "map_sum id (\<lambda>ws. (length ws, last ws))
             (write_midi_action_to_serial_port sd (pre @ [NoteOff ch n 0xFF]))
           = Inr (Suc (length pre), [0x80 + ch, n AND 0x7F])
       \<and> map_sum id (\<lambda>ws. (length ws, last ws))
             (write_midi_action_to_serial_port sd (pre @ [NoteOn ch n 0xFF]))
           = Inr (Suc (length pre), [0x90 + ch, n AND 0x7F])
       \<and> map_sum id (\<lambda>ws. (length ws, last ws))
             (write_midi_action_to_serial_port sd (pre @ [KeyPress ch n 0xFF]))
           = Inr (Suc (length pre), [0xA0 + ch, n AND 0x7F])
       \<and> (ucast v = (0xFF::byte) \<longrightarrow>
            map_sum id (\<lambda>ws. (length ws, last ws))
              (write_midi_action_to_serial_port sd (pre @ [Controller ch p v]))
            = Inr (Suc (length pre), [0xB0 + ch, ucast p AND 0x7F]))
       \<and> (ucast (signed_drop_bit 7 (w + 8192)) = (0xFF::byte) \<longrightarrow>
            map_sum id (\<lambda>ws. (length ws, last ws))
              (write_midi_action_to_serial_port sd (pre @ [PitchBend ch w]))
            = Inr (Suc (length pre), [0xE0 + ch, ucast ((w + 8192) AND 0x7F) AND 0x7F]))"
  using last_write_of_call [OF assms(1)] sentinel_collision_step [OF _ _ assms(2)]
  by simp

theorem sentinel_collision_two_bytes_witness:
  "(\<forall>d. SysEx d \<notin> set [NoteOn 0 0x3C 0x7F, PgmChange 0 5])
     \<and> (0::byte) \<le> 15
     \<and> write_midi_action_to_serial_port (replicate 256 0)
          ([NoteOn 0 0x3C 0x7F, PgmChange 0 5] @ [NoteOn 0 0x40 0xFF])
         = Inr [[0x90, 0x3C, 0x7F], [0xC0, 0x05, 0x7F], [0x90, 0x40]]
     \<and> map_sum id (\<lambda>ws. (length ws, last ws)) (write_midi_action_to_serial_port (replicate 256 0)
          ([NoteOn 0 0x3C 0x7F, PgmChange 0 5] @ [Controller 0 7 0xFF]))
         = Inr (3, [0xB0, 0x07])
     \<and> map_sum id (\<lambda>ws. (length ws, last ws)) (write_midi_action_to_serial_port (replicate 256 0)
          ([NoteOn 0 0x3C 0x7F, PgmChange 0 5] @ [PitchBend 0 24448]))
         = Inr (3, [0xE0, 0x00])"
  using sentinel_collision_two_bytes [of "[NoteOn 0 0x3C 0x7F, PgmChange 0 5]" 0 "replicate 256 0"
      "0x40" "0xFF" 7 24448]
  by (simp add: call_defs)

text \<open>
  The claim as it is worded holds for any such event. After a sysex event in the same
  call \<open>sysex_len\<close> is still positive, the byte branch is not reached, and the three
  sysex bytes are written once more in place of the note-on.
\<close>

theorem sentinel_collision_after_sysex_counterexample:
  "write_midi_action_to_serial_port (replicate 256 0) [SysEx [0xF0, 0x01, 0xF7], NoteOn 0 0x40 0xFF]
     = Inr [[0xF0, 0x01, 0xF7], [0xF0, 0x01, 0xF7]]"
  by (simp add: call_defs SYSEX_DATA_SIZE_def)

text \<open>
  Claim C10 (outbound sysex size bound). The copy of a sysex event into the 256-byte
  \<open>sysex_data\<close> leaves the array exactly when the event is longer than 256 bytes; an
  event of 1 to 256 bytes is copied and written to the serial port as it is. (The length
  is below \<open>2^31\<close>, so that the \<open>int\<close> \<open>sysex_len\<close> holds it.)
\<close>

theorem sysex_copy_in_bounds_iff:
  assumes "length d < 2 ^ 31"
  shows "(encode_event s (SysEx d) = Inl SysexBufferOverrun) = (SYSEX_DATA_SIZE < length d)
       \<and> (0 < length d \<and> length d \<le> SYSEX_DATA_SIZE \<longrightarrow>
            map_sum id snd (encode_event s (SysEx d)) = Inr d)"
  using assms by (simp add: enc_defs sint_length SYSEX_DATA_SIZE_def)

theorem sysex_copy_in_bounds_iff_witness:
  "length (replicate 257 (0::byte)) < 2 ^ 31
     \<and> encode_event (init_enc_state (replicate 256 0)) (SysEx (replicate 257 0))
         = Inl SysexBufferOverrun
     \<and> length [0xF0, 0x01, 0x02, 0xF7 :: byte] < 2 ^ 31
     \<and> map_sum id snd (encode_event (init_enc_state (replicate 256 0)) (SysEx [0xF0, 0x01, 0x02, 0xF7]))
         = Inr [0xF0, 0x01, 0x02, 0xF7]"
  using sysex_copy_in_bounds_iff [of "replicate 257 0" "init_enc_state (replicate 256 0)"]
    sysex_copy_in_bounds_iff [of "[0xF0, 0x01, 0x02, 0xF7]" "init_enc_state (replicate 256 0)"]
  by (simp add: SYSEX_DATA_SIZE_def)

section \<open>The serial-to-ALSA direction\<close>

text \<open>
  Claim C3 (framing of \<open>90 40 7F\<close>). From the initial state these three bytes should
  give one note-on. The first status byte is consumed by the fast-forward loop, and the
  main loop then starts with \<open>bytesleft = BUF_SIZE - 1\<close>: after the second data byte
  \<open>i\<close> is 3, which is below 1023, so the loop reads on and no frame is delivered. The
  next status byte then discards the pending bytes.
\<close>

theorem note_on_after_start_not_delivered:
  "read_midi_from_serial_port \<lparr>silent = False, verbose = False, printonly = False\<rparr>
     (replicate 1024 0) [0x90, 0x40, 0x7F] = []
   \<and> sink_events (read_midi_from_serial_port \<lparr>silent = False, verbose = False, printonly = False\<rparr>
        (replicate 1024 0) [0x90, 0x40, 0x7F, 0x90, 0x41, 0x7F]) = [NoteOn 0 0x41 0x7F]"
  by (simp add: framer_defs parse_midi_command_def)

text \<open>
  Claim C5 (text extension). \<open>FF 00 00 05 'h' 'e' 'l' 'l' 'o'\<close> should give the text
  comment ``hello'' and nothing for the sequencer. From the initial state nothing is
  delivered or printed at all: the loop keeps reading, for the reason given for
  \<open>90 40 7F\<close>. When the \<open>0xFF\<close> is the first byte of a pass of the main loop
  (\<open>F8 FF 00 00 05 ...\<close>), it is stored at \<open>buf[1]\<close> as well as at \<open>buf[0]\<close> and
  ends the frame at once, so the test \<open>buf[1] == 0x00\<close> fails and the frame goes to
  \<open>parse_midi_command\<close>, which sends a cleared event to the sequencer.
\<close>

theorem text_comment_hello_not_recognised:
  "read_midi_from_serial_port \<lparr>silent = False, verbose = False, printonly = False\<rparr>
     (replicate 1024 0) [0xFF, 0x00, 0x00, 0x05, 0x68, 0x65, 0x6C, 0x6C, 0x6F] = []
   \<and> sink_events (read_midi_from_serial_port \<lparr>silent = False, verbose = False, printonly = False\<rparr>
        (replicate 1024 0) [0xF8, 0xFF, 0x00, 0x00, 0x05, 0x68, 0x65, 0x6C, 0x6C, 0x6F]) = [Other]"
  by (simp add: framer_defs parse_midi_command_def)

text \<open>
  The marker test reads \<open>buf[1]\<close> and \<open>buf[2]\<close> when the \<open>0xFF\<close> has just
  arrived, so what the code recognises is two zero data bytes before the \<open>0xFF\<close>,
  with the length byte right after it.
\<close>

lemma text_comment_after_zero_bytes:
  "read_midi_from_serial_port \<lparr>silent = False, verbose = False, printonly = False\<rparr>
     (replicate 1024 0) [0xFF, 0x00, 0x00, 0xFF, 0x05, 0x68, 0x65, 0x6C, 0x6C, 0x6F]
     = [TextComment 5 [0x68, 0x65, 0x6C, 0x6C, 0x6F]]"
  by (simp add: framer_defs)

text \<open>
  Claim C6 (one data byte after \<open>0xF1\<close> and \<open>0xF3\<close>). For these status bytes
  \<open>bytesleft\<close> is set to 1 and \<open>i\<close> to 1, so \<open>i < bytesleft\<close> fails and the frame is
  delivered before its data byte is read. The decoder takes the value from \<open>buf[1]\<close>,
  where the status byte itself was stored: after \<open>F1 05\<close> the quarter-frame value is
  \<open>0xF1\<close>, not \<open>0x05\<close>, and after \<open>F3 05\<close> the song number is \<open>0xF3\<close>.
\<close>

theorem quarter_frame_delivered_without_data_byte:
  "sink_events (read_midi_from_serial_port \<lparr>silent = False, verbose = False, printonly = False\<rparr>
     (replicate 1024 0) [0xF8, 0x90, 0x40, 0x7F, 0xF1, 0x05]) = [NoteOn 0 0x40 0x7F, QFrame 0xF1]
   \<and> sink_events (read_midi_from_serial_port \<lparr>silent = False, verbose = False, printonly = False\<rparr>
     (replicate 1024 0) [0xF8, 0x90, 0x40, 0x7F, 0xF3, 0x05]) = [NoteOn 0 0x40 0x7F, SongSel 0xF3]"
  by (simp add: framer_defs parse_midi_command_def)




text \<open>
  Claim C8 (decoder-input invariant). Every frame that \<open>read_midi_from_serial_port\<close>
  hands to \<open>parse_midi_command\<close> has bit 7 of \<open>buf[0]\<close> set, for every
  stream of serial bytes, every initial content of the buffer and every setting of the
  flags. (The text branch stores the length byte in \<open>buf[0]\<close>; the next pass of the
  loop cannot end before a status byte has replaced it.)
\<close>

theorem decoder_frames_start_with_status:
  assumes "length buf = BUF_SIZE"
    and "Decode b n \<in> set (read_midi_from_serial_port args buf inp)"
  shows "bit (b ! 0) 7"
proof -
  have "drop_bit 7 (b ! 0) \<noteq> 0"
  proof (cases "printonly args")
    case True
    with assms show ?thesis
      by (auto simp: read_midi_from_serial_port_def BUF_SIZE_def dest: serial_loop_decode_status [rotated])
  next
    case False
    obtain buf0 rest where
      ff: "fast_forward buf inp = Some (buf0, rest)" and d: "Decode b n \<in> set (serial_loop args buf0 rest)"
    proof (cases "fast_forward buf inp")
      case None
      with False assms(2) show ?thesis by (simp add: read_midi_from_serial_port_def)
    next
      case (Some r)
      with False assms(2) that show ?thesis
        by (cases r) (simp add: read_midi_from_serial_port_def)
    qed
    have "length buf0 = length buf" using ff
      by (induction inp arbitrary: buf) (auto split: if_splits)
    with assms(1) have "0 < length buf0" by (simp add: BUF_SIZE_def)
    from serial_loop_decode_status [OF this d] show ?thesis .
  qed
  then show ?thesis by (simp add: status_test_bit7)
qed

theorem decoder_frames_start_with_status_witness:
  "length (replicate 1024 (0::byte)) = BUF_SIZE
     \<and> Decode ((replicate 1024 0)[0 := 0xF8, 1 := 0x90, 0 := 0x90, 1 := 0x40, 2 := 0x7F]) 3
         \<in> set (read_midi_from_serial_port \<lparr>silent = False, verbose = False, printonly = False\<rparr>
                  (replicate 1024 0) [0xF8, 0x90, 0x40, 0x7F])
     \<and> bit (((replicate 1024 (0::byte))[0 := 0xF8, 1 := 0x90, 0 := 0x90, 1 := 0x40, 2 := 0x7F]) ! 0) 7"
  using decoder_frames_start_with_status [of "replicate 1024 0"
      "(replicate 1024 0)[0 := 0xF8, 1 := 0x90, 0 := 0x90, 1 := 0x40, 2 := 0x7F]" 3
      "\<lparr>silent = False, verbose = False, printonly = False\<rparr>" "[0xF8, 0x90, 0x40, 0x7F]"]
  by (simp add: framer_defs)




end
